theory Spec2Isabelle
  imports Main
begin

section \<open>Go strings and the library functions the scanner calls\<close>

text \<open>
  A Go string is a sequence of bytes; it is modelled as a \<^typ>\<open>string\<close>. The functions
  of package \<^verbatim>\<open>strings\<close> and \<^verbatim>\<open>unicode\<close> that the scanner calls work on runes. They
  are written out here byte by byte with the library's rules for ASCII, which is exact
  for ASCII text, and the names of a Wayland protocol description are ASCII. For a rune
  beyond ASCII the library consults the Unicode tables; a byte beyond ASCII is taken
  here as a rune without case that separates nothing.
\<close>

definition is_lower :: "char \<Rightarrow> bool" where
  "is_lower c = (97 \<le> (of_char c :: nat) \<and> (of_char c :: nat) \<le> 122)"

definition is_upper :: "char \<Rightarrow> bool" where
  "is_upper c = (65 \<le> (of_char c :: nat) \<and> (of_char c :: nat) \<le> 90)"

definition is_digit :: "char \<Rightarrow> bool" where
  "is_digit c = (48 \<le> (of_char c :: nat) \<and> (of_char c :: nat) \<le> 57)"

text \<open>
  \<^verbatim>\<open>strings.isSeparator\<close>: ASCII letters, digits and the underscore are not
  separators, every other ASCII rune is.
\<close>

definition isSeparator :: "char \<Rightarrow> bool" where
  "isSeparator r =
     (if (of_char r :: nat) \<le> 0x7F then
        (if is_digit r then False
         else if is_lower r then False
         else if is_upper r then False
         else if r = CHR ''_'' then False
         else True)
      else False)"

text \<open>\<^verbatim>\<open>unicode.ToTitle\<close> on an ASCII rune: \<^verbatim>\<open>'a'..'z'\<close> move down by \<^verbatim>\<open>'a' - 'A'\<close>.\<close>

definition unicode_ToTitle :: "char \<Rightarrow> char" where
  "unicode_ToTitle r = (if is_lower r then char_of (of_char r - (32::nat)) else r)"

text \<open>
  \<^verbatim>\<open>strings.Title\<close> maps over the runes with a closure that remembers the previous
  rune, starting from a space: a rune that follows a separator is title-cased.
\<close>

fun title_from :: "char \<Rightarrow> string \<Rightarrow> string" where
  "title_from prev [] = []"
| "title_from prev (r # rs) =
     (if isSeparator prev then unicode_ToTitle r else r) # title_from r rs"

definition Title :: "string \<Rightarrow> string" where
  "Title s = title_from CHR '' '' s"

text \<open>\<^verbatim>\<open>strings.ToTitle\<close> title-cases every rune.\<close>

definition ToTitle :: "string \<Rightarrow> string" where
  "ToTitle s = map unicode_ToTitle s"

definition HasPrefix :: "string \<Rightarrow> string \<Rightarrow> bool" where
  "HasPrefix s pre = (length pre \<le> length s \<and> take (length pre) s = pre)"

definition TrimPrefix :: "string \<Rightarrow> string \<Rightarrow> string" where
  "TrimPrefix s pre = (if HasPrefix s pre then drop (length pre) s else s)"

text \<open>
  \<^verbatim>\<open>strings.Replace(s, old, new, -1)\<close> for a one-byte \<open>old\<close>: every occurrence of the
  byte is replaced by the bytes of \<open>new\<close>.
\<close>

definition ReplaceAll :: "string \<Rightarrow> char \<Rightarrow> string \<Rightarrow> string" where
  "ReplaceAll s old new = concat (map (\<lambda>c. if c = old then new else [c]) s)"

text \<open>\<^verbatim>\<open>%d\<close> of a non-negative \<^verbatim>\<open>int\<close>: its decimal digits, most significant first.\<close>

definition digit_char :: "nat \<Rightarrow> char" where
  "digit_char d = char_of (48 + d)"

fun itoa :: "nat \<Rightarrow> string" where
  "itoa n = (if n < 10 then [digit_char n] else itoa (n div 10) @ [digit_char (n mod 10)])"

declare itoa.simps [simp del]

section \<open>The identifier-naming rule\<close>

definition CamelCase :: "string \<Rightarrow> string" where
  "CamelCase wlName =
     (let wlName1 = (if HasPrefix wlName ''wl_'' then TrimPrefix wlName ''wl_'' else wlName);
          wlName2 = ReplaceAll wlName1 CHR ''_'' '' '';
          wlName3 = Title wlName2;
          wlName4 = ReplaceAll wlName3 CHR '' '' ''''
      in wlName4)"

section \<open>The schema model\<close>

text \<open>
  The structs that \<^verbatim>\<open>encoding/xml\<close> decodes the protocol description into. A field
  keeps its Go name behind a prefix naming its struct; the \<^verbatim>\<open>XMLName\<close> fields, which
  the generator never reads, are left out.
\<close>

record Description =
  desc_Summary :: string
  desc_Description :: string

record Arg =
  arg_Name :: string
  arg_Type :: string
  arg_Interface :: string
  arg_Enum :: string
  arg_AllowNull :: bool
  arg_Summary :: string

record Request =
  req_Name :: string
  req_Type :: string
  req_Since :: int
  req_Description :: Description
  req_Args :: "Arg list"

record Event =
  event_Name :: string
  event_Since :: int
  event_Description :: Description
  event_Args :: "Arg list"

record Entry =
  entry_Name :: string
  entry_Value :: string
  entry_Summary :: string

record Enum =
  enum_Name :: string
  enum_BitField :: bool
  enum_Description :: Description
  enum_Entries :: "Entry list"

record Interface =
  iface_Name :: string
  iface_Version :: int
  iface_Since :: int
  iface_Description :: Description
  iface_Requests :: "Request list"
  iface_Events :: "Event list"
  iface_Enums :: "Enum list"

record Protocol =
  proto_Name :: string
  proto_Copyright :: string
  proto_Interfaces :: "Interface list"

section \<open>The type table and the identifier registry\<close>

definition wlTypes :: "string \<rightharpoonup> string" where
  "wlTypes =
     [''int'' \<mapsto> ''int32'',
      ''uint'' \<mapsto> ''uint32'',
      ''string'' \<mapsto> ''string'',
      ''fd'' \<mapsto> ''uintptr'',
      ''fixed'' \<mapsto> ''float32'',
      ''array'' \<mapsto> ''[]int32'']"

text \<open>
  Indexing a Go \<^verbatim>\<open>map[string]string\<close> with a key it does not hold yields the empty
  string and no error.
\<close>

definition map_index :: "(string \<rightharpoonup> string) \<Rightarrow> string \<Rightarrow> string" where
  "map_index m k = (case m k of None \<Rightarrow> '''' | Some v \<Rightarrow> v)"

text \<open>The package-level variables that \<^verbatim>\<open>main\<close> and its helpers read and write.\<close>

record gen_state =
  wlNames :: "string \<rightharpoonup> string"
  constBuffer :: string
  ifaceBuffer :: string
  reqCodesBuffer :: string

definition registerAndCase :: "string \<Rightarrow> gen_state \<Rightarrow> string \<times> gen_state" where
  "registerAndCase wlName st =
     (let orj = wlName;
          cased = CamelCase wlName
      in (cased, st\<lparr>wlNames := (wlNames st)(orj \<mapsto> cased)\<rparr>))"

section \<open>Request signatures and bodies\<close>

text \<open>
  Each helper runs a first loop that appends to a slice of strings and a second that
  joins the slice into a buffer. The first loop is a left fold of its body over the
  arguments; the helpers read \<^verbatim>\<open>wlNames\<close> and never write it, so it is a parameter.
\<close>

definition requestArgs_step :: "(string \<rightharpoonup> string) \<Rightarrow> string list \<Rightarrow> Arg \<Rightarrow> string list" where
  "requestArgs_step names args arg =
     (if arg_Type arg = ''new_id'' then
        (if arg_Interface arg = '''' then
           args @ [''iface string''] @ [''version uint32''] @ [arg_Name arg @ '' Proxy'']
         else args)
      else if arg_Type arg = ''object'' \<and> arg_Interface arg \<noteq> '''' then
        (let argTypeName = map_index names (arg_Interface arg)
         in args @ [arg_Name arg @ '' *'' @ argTypeName])
      else args @ [arg_Name arg @ '' '' @ map_index wlTypes (arg_Type arg)])"

definition requestArgs_list :: "(string \<rightharpoonup> string) \<Rightarrow> Request \<Rightarrow> string list" where
  "requestArgs_list names req = foldl (requestArgs_step names) [] (req_Args req)"

text \<open>The joining loop: a comma before every element but the first.\<close>

fun join_from :: "nat \<Rightarrow> string list \<Rightarrow> string \<Rightarrow> string" where
  "join_from i [] buf = buf"
| "join_from i (x # xs) buf = join_from (Suc i) xs ((if i > 0 then buf @ '','' else buf) @ x)"

definition requestArgs :: "(string \<rightharpoonup> string) \<Rightarrow> Request \<Rightarrow> string" where
  "requestArgs names req = join_from 0 (requestArgs_list names req) ''''"

definition requestRets_step :: "(string \<rightharpoonup> string) \<Rightarrow> string list \<Rightarrow> Arg \<Rightarrow> string list" where
  "requestRets_step names rets arg =
     (if arg_Type arg = ''new_id'' \<and> arg_Interface arg \<noteq> '''' then
        (let retTypeName = map_index names (arg_Interface arg)
         in rets @ [''*'' @ retTypeName])
      else rets)"

definition requestRets_list :: "(string \<rightharpoonup> string) \<Rightarrow> Request \<Rightarrow> string list" where
  "requestRets_list names req = foldl (requestRets_step names) [] (req_Args req) @ ['' error'']"

definition requestRets :: "(string \<rightharpoonup> string) \<Rightarrow> Request \<Rightarrow> string" where
  "requestRets names req =
     (let rets = requestRets_list names req;
          b1 = (if length rets > 1 then ''('' else '''');
          b2 = join_from 0 rets b1
      in if length rets > 1 then b2 @ '')'' else b2)"

text \<open>
  The loop of \<^verbatim>\<open>requestBody\<close> carries the slice \<^verbatim>\<open>params\<close>, the buffer
  \<^verbatim>\<open>bodyBuffer\<close> and the string \<^verbatim>\<open>hasRetType\<close>.
\<close>

definition requestBody_step ::
  "(string \<rightharpoonup> string) \<Rightarrow> string list \<times> string \<times> string \<Rightarrow> Arg \<Rightarrow> string list \<times> string \<times> string" where
  "requestBody_step names acc arg =
     (case acc of (params, bodyBuffer, hasRetType) \<Rightarrow>
        if arg_Type arg = ''new_id'' then
          (if arg_Interface arg \<noteq> '''' then
             (let retTypeName = map_index names (arg_Interface arg)
              in (params @ [''Proxy(ret)''],
                  bodyBuffer @ ''ret := New'' @ retTypeName @ ''(p.Connection())\<newline>'',
                  ''ret,''))
           else (params @ [''iface''] @ [''version''] @ [arg_Name arg], bodyBuffer, hasRetType))
        else (params @ [arg_Name arg], bodyBuffer, hasRetType))"

definition requestBody_loop ::
  "(string \<rightharpoonup> string) \<Rightarrow> Request \<Rightarrow> string list \<times> string \<times> string" where
  "requestBody_loop names req = foldl (requestBody_step names) ([], '''', '''') (req_Args req)"

definition requestBody :: "(string \<rightharpoonup> string) \<Rightarrow> Request \<Rightarrow> string \<Rightarrow> string" where
  "requestBody names req reqCodeName =
     (case requestBody_loop names req of (params, bodyBuffer, hasRetType) \<Rightarrow>
        (let paramsBuffer = foldl (\<lambda>b param. b @ '','' @ param) '''' params
         in bodyBuffer @ ''return '' @ hasRetType @ '' p.Connection().SendRequest(p,''
              @ reqCodeName @ paramsBuffer @ '')''))"

text \<open>The elements of a slice written one after the other with commas between them.\<close>

fun comma_join :: "string list \<Rightarrow> string" where
  "comma_join [] = []"
| "comma_join [x] = x"
| "comma_join (x # y # ys) = x @ '','' @ comma_join (y # ys)"

section \<open>The generator\<close>

text \<open>One field line of an event struct: the body of the loop over \<^verbatim>\<open>event.Args\<close>.\<close>

definition event_arg_step :: "(string \<rightharpoonup> string) \<Rightarrow> string \<Rightarrow> Arg \<Rightarrow> string" where
  "event_arg_step names eventBuffer arg =
     (case wlTypes (arg_Type arg) of
        Some t \<Rightarrow> eventBuffer @ CamelCase (arg_Name arg) @ '' '' @ t @ ''\<newline>''
      | None \<Rightarrow>
          (let t = (if (arg_Type arg = ''object'' \<or> arg_Type arg = ''new_id'')
                       \<and> arg_Interface arg \<noteq> ''''
                    then ''*'' @ map_index names (arg_Interface arg)
                    else ''Proxy'')
           in eventBuffer @ CamelCase (arg_Name arg) @ '' '' @ t @ ''\<newline>''))"

text \<open>
  The body of the loop over \<^verbatim>\<open>iface.Events\<close>. It registers the event's name, so it
  threads the generator state next to its own \<^verbatim>\<open>eventBuffer\<close> and \<^verbatim>\<open>eventNames\<close>.
\<close>

definition event_step ::
  "string \<Rightarrow> gen_state \<times> string \<times> string list \<Rightarrow> Event \<Rightarrow> gen_state \<times> string \<times> string list" where
  "event_step ifaceName acc event =
     (case acc of (st, eventBuffer, eventNames) \<Rightarrow>
        (case registerAndCase (event_Name event) st of (eventName, st1) \<Rightarrow>
           (let typeName = ifaceName @ eventName @ ''Event'';
                eventBuffer1 = eventBuffer @ ''\<newline>type '' @ typeName @ '' struct {\<newline>'';
                eventBuffer2 = foldl (event_arg_step (wlNames st1)) eventBuffer1 (event_Args event)
            in (st1, eventBuffer2 @ ''}\<newline>'', eventNames @ [eventName]))))"

text \<open>The two loops over \<^verbatim>\<open>eventNames\<close>: channel fields, then their initialisation.\<close>

definition chan_field_step :: "string \<Rightarrow> string \<Rightarrow> string \<Rightarrow> string" where
  "chan_field_step ifaceName buf evName =
     buf @ (evName @ ''Chan'') @ '' chan '' @ (ifaceName @ evName @ ''Event'') @ ''\<newline>''"

definition chan_make_step :: "string \<Rightarrow> string \<Rightarrow> string \<Rightarrow> string" where
  "chan_make_step ifaceName buf evName =
     buf @ ''ret.'' @ (evName @ ''Chan'') @ '' = make(chan ''
         @ (ifaceName @ evName @ ''Event'') @ '')\<newline>''"

text \<open>The body of the loop over \<^verbatim>\<open>iface.Requests\<close>, with the index \<^verbatim>\<open>order\<close>.\<close>

definition request_step :: "string \<Rightarrow> gen_state \<Rightarrow> nat \<times> Request \<Rightarrow> gen_state" where
  "request_step ifaceName st oreq =
     (case oreq of (order, req) \<Rightarrow>
        (let reqName = CamelCase (req_Name req);
             reqCodeName = ToTitle (''_'' @ ifaceName @ ''_'' @ reqName);
             st1 = st\<lparr>reqCodesBuffer := reqCodesBuffer st @ reqCodeName @ '' = '' @ itoa order @ ''\<newline>''\<rparr>;
             st2 = st1\<lparr>ifaceBuffer := ifaceBuffer st1 @ ''\<newline>func (p *'' @ ifaceName @ '') '' @ reqName @ ''(''\<rparr>;
             st3 = st2\<lparr>ifaceBuffer := ifaceBuffer st2 @ requestArgs (wlNames st2) req\<rparr>;
             st4 = st3\<lparr>ifaceBuffer := ifaceBuffer st3 @ '')''\<rparr>;
             st5 = st4\<lparr>ifaceBuffer := ifaceBuffer st4 @ requestRets (wlNames st4) req\<rparr>;
             st6 = st5\<lparr>ifaceBuffer := ifaceBuffer st5 @ ''{\<newline>''\<rparr>;
             st7 = st6\<lparr>ifaceBuffer := ifaceBuffer st6 @ requestBody (wlNames st6) req reqCodeName\<rparr>
         in st7\<lparr>ifaceBuffer := ifaceBuffer st7 @ ''\<newline>}\<newline>''\<rparr>))"

text \<open>The loops over \<^verbatim>\<open>enum.Entries\<close> and over \<^verbatim>\<open>iface.Enums\<close>.\<close>

definition entry_step :: "string \<Rightarrow> string \<Rightarrow> string \<Rightarrow> gen_state \<Rightarrow> Entry \<Rightarrow> gen_state" where
  "entry_step ifaceName enumName constTypeName st entry =
     (case registerAndCase (entry_Name entry) st of (entryName, st1) \<Rightarrow>
        (let constName = ifaceName @ enumName @ entryName
         in st1\<lparr>constBuffer := constBuffer st1 @ constName @ '' '' @ constTypeName
                                   @ '' = '' @ entry_Value entry @ ''\<newline>''\<rparr>))"

definition enum_step :: "string \<Rightarrow> gen_state \<Rightarrow> Enum \<Rightarrow> gen_state" where
  "enum_step ifaceName st enum =
     (case registerAndCase (enum_Name enum) st of (enumName, st1) \<Rightarrow>
        (let constTypeName = ifaceName @ enumName;
             st2 = st1\<lparr>constBuffer := constBuffer st1 @ ''\<newline>type '' @ constTypeName @ '' uint\<newline>''\<rparr>;
             st3 = st2\<lparr>constBuffer := constBuffer st2 @ ''const (\<newline>''\<rparr>;
             st4 = foldl (entry_step ifaceName enumName constTypeName) st3 (enum_Entries enum)
         in st4\<lparr>constBuffer := constBuffer st4 @ '')\<newline>''\<rparr>))"

text \<open>
  The body of the second loop over \<^verbatim>\<open>protocol.Interfaces\<close>. \<^verbatim>\<open>range\<close> with an index
  is the fold over the requests paired with their positions.
\<close>

definition iface_step :: "gen_state \<Rightarrow> Interface \<Rightarrow> gen_state" where
  "iface_step st iface =
     (let ifaceName = map_index (wlNames st) (iface_Name iface)
      in case foldl (event_step ifaceName) (st, '''', []) (iface_Events iface) of
           (st1, eventBuffer, eventNames) \<Rightarrow>
        (let st2 = st1\<lparr>ifaceBuffer := ifaceBuffer st1 @ eventBuffer\<rparr>;
             st3 = st2\<lparr>ifaceBuffer := ifaceBuffer st2 @ ''\<newline>type '' @ ifaceName @ '' struct {\<newline>''\<rparr>;
             st4 = st3\<lparr>ifaceBuffer := ifaceBuffer st3 @ ''BaseProxy\<newline>''\<rparr>;
             st5 = st4\<lparr>ifaceBuffer := foldl (chan_field_step ifaceName) (ifaceBuffer st4) eventNames\<rparr>;
             st6 = st5\<lparr>ifaceBuffer := ifaceBuffer st5 @ ''}\<newline>''\<rparr>;
             st7 = st6\<lparr>ifaceBuffer := ifaceBuffer st6 @ ''\<newline>func New'' @ ifaceName
                                          @ ''(conn *Connection) *'' @ ifaceName @ '' {\<newline>''\<rparr>;
             st8 = st7\<lparr>ifaceBuffer := ifaceBuffer st7 @ ''ret := new('' @ ifaceName @ '')\<newline>''\<rparr>;
             st9 = st8\<lparr>ifaceBuffer := foldl (chan_make_step ifaceName) (ifaceBuffer st8) eventNames\<rparr>;
             st10 = st9\<lparr>ifaceBuffer := ifaceBuffer st9 @ ''conn.Register(ret)\<newline>''\<rparr>;
             st11 = st10\<lparr>ifaceBuffer := ifaceBuffer st10 @ ''return ret\<newline>''\<rparr>;
             st12 = st11\<lparr>ifaceBuffer := ifaceBuffer st11 @ ''}\<newline>''\<rparr>;
             st13 = foldl (request_step ifaceName) st12 (enumerate 0 (iface_Requests iface))
         in foldl (enum_step ifaceName) st13 (iface_Enums iface)))"

text \<open>
  \<^verbatim>\<open>main\<close> from the decoded protocol on. The package-level buffers start empty and
  \<^verbatim>\<open>wlNames\<close> is made afresh.
\<close>

definition init_state :: gen_state where
  "init_state = \<lparr>wlNames = Map.empty, constBuffer = '''', ifaceBuffer = '''', reqCodesBuffer = ''''\<rparr>"

definition generate :: "Protocol \<Rightarrow> gen_state" where
  "generate protocol =
     (let st0 = init_state\<lparr>constBuffer := constBuffer init_state @ ''package wl''\<rparr>;
          st1 = foldl (\<lambda>st iface. snd (registerAndCase (iface_Name iface) st)) st0
                  (proto_Interfaces protocol);
          st2 = st1\<lparr>reqCodesBuffer := reqCodesBuffer st1 @ ''\<newline>//Interface Request Codes\<newline>''\<rparr>;
          st3 = st2\<lparr>reqCodesBuffer := reqCodesBuffer st2 @ ''\<newline>const (\<newline>''\<rparr>;
          st4 = foldl iface_step st3 (proto_Interfaces protocol)
      in st4\<lparr>reqCodesBuffer := reqCodesBuffer st4 @ '')''\<rparr>)"

text \<open>
  The three places where \<^verbatim>\<open>main\<close> calls \<^verbatim>\<open>log.Fatal\<close>: resolving the path, opening
  the file and decoding it. The outcome of those three steps is the input of the model;
  a run ends either in one of the fatal errors or with the text written to standard
  output, the three buffers in the order of the three \<^verbatim>\<open>WriteTo\<close> calls.
\<close>

datatype fatal = AbsFailed | OpenFailed | DecodeFailed

definition main :: "fatal + Protocol \<Rightarrow> fatal + string" where
  "main input =
     (case input of
        Inl err \<Rightarrow> Inl err
      | Inr protocol \<Rightarrow>
          (let st = generate protocol
           in Inr (constBuffer st @ reqCodesBuffer st @ ifaceBuffer st)))"

section \<open>Sample schema values\<close>

text \<open>
  Constructors for the concrete descriptions at which the results below are
  instantiated: every field that the generator does not read is left empty.
\<close>

definition no_description :: Description where
  "no_description = \<lparr>desc_Summary = '''', desc_Description = ''''\<rparr>"

definition mk_arg :: "string \<Rightarrow> string \<Rightarrow> string \<Rightarrow> Arg" where
  "mk_arg name type interface =
     \<lparr>arg_Name = name, arg_Type = type, arg_Interface = interface, arg_Enum = '''',
      arg_AllowNull = False, arg_Summary = ''''\<rparr>"

definition mk_request :: "string \<Rightarrow> Arg list \<Rightarrow> Request" where
  "mk_request name args =
     \<lparr>req_Name = name, req_Type = '''', req_Since = 0, req_Description = no_description,
      req_Args = args\<rparr>"

definition mk_event :: "string \<Rightarrow> Arg list \<Rightarrow> Event" where
  "mk_event name args =
     \<lparr>event_Name = name, event_Since = 0, event_Description = no_description,
      event_Args = args\<rparr>"

definition mk_interface :: "string \<Rightarrow> Request list \<Rightarrow> Event list \<Rightarrow> Interface" where
  "mk_interface name requests events =
     \<lparr>iface_Name = name, iface_Version = 1, iface_Since = 0,
      iface_Description = no_description, iface_Requests = requests,
      iface_Events = events, iface_Enums = []\<rparr>"

definition mk_protocol :: "Interface list \<Rightarrow> Protocol" where
  "mk_protocol interfaces =
     \<lparr>proto_Name = ''sample'', proto_Copyright = '''', proto_Interfaces = interfaces\<rparr>"

text \<open>
  A request whose object argument names an interface that the description does not
  declare, and an event whose new-id argument does the same.
\<close>

definition sample_unregistered :: Protocol where
  "sample_unregistered =
     mk_protocol
       [mk_interface ''wl_pad''
          [mk_request ''attach'' [mk_arg ''target'' ''object'' ''wl_missing'']]
          [mk_event ''moved'' [mk_arg ''source'' ''new_id'' ''wl_missing'']]]"

text \<open>A request and an event whose argument has a kind outside the type table.\<close>

definition sample_unknown_kind :: Protocol where
  "sample_unknown_kind =
     mk_protocol
       [mk_interface ''wl_pad''
          [mk_request ''scale'' [mk_arg ''factor'' ''float'' '''']]
          [mk_event ''scaled'' [mk_arg ''factor'' ''float'' '''']]]"

text \<open>A request with two new-id arguments, each of a declared interface.\<close>

definition sample_two_new_ids :: Protocol where
  "sample_two_new_ids =
     mk_protocol
       [mk_interface ''wl_a'' [] [],
        mk_interface ''wl_b'' [] [],
        mk_interface ''wl_x''
          [mk_request ''pair''
             [mk_arg ''first'' ''new_id'' ''wl_a'', mk_arg ''second'' ''new_id'' ''wl_b'']]
          []]"

text \<open>
  The end-to-end scenario of the specification: one interface \<^verbatim>\<open>foo_bar\<close> with the
  request \<^verbatim>\<open>do_thing\<close>, which takes the integer \<^verbatim>\<open>count\<close>, and the event \<^verbatim>\<open>happened\<close>
  without arguments.
\<close>

definition sample_foo_bar :: Protocol where
  "sample_foo_bar =
     mk_protocol
       [mk_interface ''foo_bar''
          [mk_request ''do_thing'' [mk_arg ''count'' ''int'' '''']]
          [mk_event ''happened'' []]]"

section \<open>What the specification says the blocks hold\<close>

text \<open>
  The request-code block in the words of the specification: for every interface, for
  every request in document order, one constant equal to the request's zero-based
  position. The constant is named after the generated identifiers of the interface and
  of the request.
\<close>

definition request_code_name :: "string \<Rightarrow> Request \<Rightarrow> string" where
  "request_code_name ifaceName req = ToTitle (''_'' @ ifaceName @ ''_'' @ CamelCase (req_Name req))"

definition request_code_line :: "string \<Rightarrow> nat \<Rightarrow> Request \<Rightarrow> string" where
  "request_code_line ifaceName order req =
     request_code_name ifaceName req @ '' = '' @ itoa order @ ''\<newline>''"

definition interface_request_codes :: "Interface \<Rightarrow> string" where
  "interface_request_codes iface =
     concat (map (\<lambda>order. request_code_line (CamelCase (iface_Name iface)) order
                            (iface_Requests iface ! order))
               [0..<length (iface_Requests iface)])"

text \<open>The number that a string of decimal digits denotes.\<close>

definition decimal_value :: "string \<Rightarrow> nat" where
  "decimal_value s = foldl (\<lambda>n c. 10 * n + (of_char c - 48)) 0 s"

text \<open>
  The interface type and its constructor in the words of the specification: a base
  handle and one channel field per event; a constructor that makes every channel,
  registers the instance and returns it.
\<close>

definition channel_field :: "string \<Rightarrow> string \<Rightarrow> string" where
  "channel_field ifaceName evName =
     evName @ ''Chan chan '' @ ifaceName @ evName @ ''Event\<newline>''"

definition channel_init :: "string \<Rightarrow> string \<Rightarrow> string" where
  "channel_init ifaceName evName =
     ''ret.'' @ evName @ ''Chan = make(chan '' @ ifaceName @ evName @ ''Event)\<newline>''"

definition interface_type :: "string \<Rightarrow> string list \<Rightarrow> string" where
  "interface_type ifaceName evNames =
     ''\<newline>type '' @ ifaceName @ '' struct {\<newline>BaseProxy\<newline>''
       @ concat (map (channel_field ifaceName) evNames) @ ''}\<newline>''"

definition interface_constructor :: "string \<Rightarrow> string list \<Rightarrow> string" where
  "interface_constructor ifaceName evNames =
     ''\<newline>func New'' @ ifaceName @ ''(conn *Connection) *'' @ ifaceName @ '' {\<newline>''
       @ ''ret := new('' @ ifaceName @ '')\<newline>''
       @ concat (map (channel_init ifaceName) evNames)
       @ ''conn.Register(ret)\<newline>return ret\<newline>}\<newline>''"

text \<open>The text of one request method, as \<^verbatim>\<open>main\<close> assembles it from the three helpers.\<close>

definition method_text :: "(string \<rightharpoonup> string) \<Rightarrow> string \<Rightarrow> nat \<times> Request \<Rightarrow> string" where
  "method_text names ifaceName oreq =
     (case oreq of (order, req) \<Rightarrow>
        ''\<newline>func (p *'' @ ifaceName @ '') '' @ CamelCase (req_Name req) @ ''(''
          @ requestArgs names req @ '')'' @ requestRets names req @ ''{\<newline>''
          @ requestBody names req (request_code_name ifaceName req)
          @ ''\<newline>}\<newline>'')"

text \<open>The registry holds, for each key, the generated identifier of that key.\<close>

definition cased :: "(string \<rightharpoonup> string) \<Rightarrow> bool" where
  "cased names = (\<forall>k v. names k = Some v \<longrightarrow> v = CamelCase k)"

text \<open>
  What a loop that only registers names and writes constants leaves as it was: the two
  other buffers, the start of the constants buffer, and the two properties of the
  registry that later lookups rely on.
\<close>

definition keeps :: "string set \<Rightarrow> gen_state \<Rightarrow> gen_state \<Rightarrow> bool" where
  "keeps K st st' =
     (ifaceBuffer st' = ifaceBuffer st \<and> reqCodesBuffer st' = reqCodesBuffer st
      \<and> (\<exists>c. constBuffer st' = constBuffer st @ c)
      \<and> (cased (wlNames st) \<longrightarrow> cased (wlNames st'))
      \<and> (K \<subseteq> dom (wlNames st) \<longrightarrow> K \<subseteq> dom (wlNames st')))"

section \<open>Native names and the naming rule read backwards\<close>

text \<open>
  The naming rule after the prefix has been dealt with: underscores to spaces, title
  case, spaces removed. The previous rune that \<^verbatim>\<open>strings.Title\<close> starts from is a
  parameter here, so that statements about a whole name can be proved from statements
  about its tails.
\<close>

definition camel_from :: "char \<Rightarrow> string \<Rightarrow> string" where
  "camel_from prev s =
     ReplaceAll (title_from prev (ReplaceAll s CHR ''_'' '' '')) CHR '' '' ''''"






section \<open>Signatures: parameters and return values\<close>

lemma requestArgs_step_append:
  "requestArgs_step names args arg = args @ requestArgs_step names [] arg"
  by (simp add: requestArgs_step_def Let_def)

lemma requestArgs_fold:
  "foldl (requestArgs_step names) args xs = args @ concat (map (requestArgs_step names []) xs)"
proof (induction xs arbitrary: args)
  case Nil
  show ?case by simp
next
  case (Cons a xs)
  have "foldl (requestArgs_step names) args (a # xs)
        = foldl (requestArgs_step names) (requestArgs_step names args a) xs" by simp
  also have "\<dots> = requestArgs_step names args a @ concat (map (requestArgs_step names []) xs)"
    by (rule Cons.IH)
  also have "\<dots> = args @ concat (map (requestArgs_step names []) (a # xs))"
    using requestArgs_step_append [of names args a] by simp
  finally show ?case .
qed

lemma requestRets_fold:
  "foldl (requestRets_step names) rets xs =
     rets @ map (\<lambda>a. ''*'' @ map_index names (arg_Interface a))
              (filter (\<lambda>a. arg_Type a = ''new_id'' \<and> arg_Interface a \<noteq> '''') xs)"
  by (induction xs arbitrary: rets) (simp_all add: requestRets_step_def)

lemma wlTypes_dom: "dom wlTypes = {''int'', ''uint'', ''string'', ''fd'', ''fixed'', ''array''}"
  by (auto simp: wlTypes_def split: if_splits)

lemma prim_not_interface_kind:
  "t \<in> dom wlTypes \<Longrightarrow> t \<noteq> ''new_id'' \<and> t \<noteq> ''object''"
  unfolding wlTypes_dom by auto

lemma join_from_later:
  "i > 0 \<Longrightarrow> join_from i xs buf = buf @ concat (map (\<lambda>x. '','' @ x) xs)"
  by (induction xs arbitrary: i buf) simp_all

lemma comma_join_cons: "comma_join (x # xs) = x @ concat (map (\<lambda>y. '','' @ y) xs)"
  by (induction xs arbitrary: x) simp_all

lemma join_from_start: "join_from 0 xs buf = buf @ comma_join xs"
proof (cases xs)
  case Nil
  then show ?thesis by simp
next
  case (Cons x ys)
  then show ?thesis
    by (simp add: join_from_later comma_join_cons)
qed

lemma requestArgs_text: "requestArgs names req = comma_join (requestArgs_list names req)"
  by (simp add: requestArgs_def join_from_start)

lemma requestRets_text:
  "requestRets names req =
     (if length (requestRets_list names req) > 1
      then ''('' @ comma_join (requestRets_list names req) @ '')''
      else comma_join (requestRets_list names req))"
  by (simp add: requestRets_def Let_def join_from_start)

text \<open>
  Claim C2. The parameter slice of \<^verbatim>\<open>requestArgs\<close> is the concatenation of what each
  argument contributes, and a new-id argument with a known interface contributes
  nothing. The return slice of \<^verbatim>\<open>requestRets\<close> holds one pointer to the generated
  interface type for each such argument, in argument order, and the error value last.
  A request with one known-interface new-id argument and two primitive arguments, in
  any order, has exactly two parameters and exactly two return values. The texts that
  the two helpers return are these slices joined with commas, the results in
  parentheses when there is more than one.
\<close>

theorem new_id_elision:
  "requestArgs names req = comma_join (requestArgs_list names req)
   \<and> requestRets names req =
       (if length (requestRets_list names req) > 1
        then ''('' @ comma_join (requestRets_list names req) @ '')''
        else comma_join (requestRets_list names req))
   \<and> requestArgs_list names req = concat (map (requestArgs_step names []) (req_Args req))
   \<and> (\<forall>arg. arg_Type arg = ''new_id'' \<and> arg_Interface arg \<noteq> ''''
         \<longrightarrow> requestArgs_step names [] arg = [])
   \<and> requestRets_list names req =
       map (\<lambda>a. ''*'' @ map_index names (arg_Interface a))
         (filter (\<lambda>a. arg_Type a = ''new_id'' \<and> arg_Interface a \<noteq> '''') (req_Args req))
       @ ['' error'']
   \<and> (\<forall>n p1 p2.
         arg_Type n = ''new_id'' \<and> arg_Interface n \<noteq> ''''
         \<and> arg_Type p1 \<in> dom wlTypes \<and> arg_Type p2 \<in> dom wlTypes
         \<and> (req_Args req = [n, p1, p2] \<or> req_Args req = [p1, n, p2] \<or> req_Args req = [p1, p2, n])
         \<longrightarrow> length (requestArgs_list names req) = 2 \<and> length (requestRets_list names req) = 2)"
proof (intro conjI allI impI)
  show "requestArgs names req = comma_join (requestArgs_list names req)"
    by (rule requestArgs_text)
  show "requestRets names req =
       (if length (requestRets_list names req) > 1
        then ''('' @ comma_join (requestRets_list names req) @ '')''
        else comma_join (requestRets_list names req))"
    by (rule requestRets_text)
  show a: "requestArgs_list names req = concat (map (requestArgs_step names []) (req_Args req))"
    by (simp add: requestArgs_list_def requestArgs_fold)
  show r: "requestRets_list names req =
       map (\<lambda>a. ''*'' @ map_index names (arg_Interface a))
         (filter (\<lambda>a. arg_Type a = ''new_id'' \<and> arg_Interface a \<noteq> '''') (req_Args req))
       @ ['' error'']"
    by (simp add: requestRets_list_def requestRets_fold)
  show "requestArgs_step names [] arg = []"
    if "arg_Type arg = ''new_id'' \<and> arg_Interface arg \<noteq> ''''" for arg
    using that by (simp add: requestArgs_step_def)
  fix n p1 p2
  assume h: "arg_Type n = ''new_id'' \<and> arg_Interface n \<noteq> ''''
         \<and> arg_Type p1 \<in> dom wlTypes \<and> arg_Type p2 \<in> dom wlTypes
         \<and> (req_Args req = [n, p1, p2] \<or> req_Args req = [p1, n, p2] \<or> req_Args req = [p1, p2, n])"
  have n0: "requestArgs_step names [] n = []"
    using h by (simp add: requestArgs_step_def)
  have p1: "length (requestArgs_step names [] p1) = 1"
    using h prim_not_interface_kind [of "arg_Type p1"] by (simp add: requestArgs_step_def)
  have p2: "length (requestArgs_step names [] p2) = 1"
    using h prim_not_interface_kind [of "arg_Type p2"] by (simp add: requestArgs_step_def)
  have k1: "\<not> (arg_Type p1 = ''new_id'' \<and> arg_Interface p1 \<noteq> '''')"
    using h prim_not_interface_kind [of "arg_Type p1"] by simp
  have k2: "\<not> (arg_Type p2 = ''new_id'' \<and> arg_Interface p2 \<noteq> '''')"
    using h prim_not_interface_kind [of "arg_Type p2"] by simp
  from h have "req_Args req = [n, p1, p2] \<or> req_Args req = [p1, n, p2] \<or> req_Args req = [p1, p2, n]"
    by simp
  then show "length (requestArgs_list names req) = 2"
    using a n0 p1 p2 by (elim disjE) simp_all
  from h k1 k2 show "length (requestRets_list names req) = 2"
    unfolding r by (elim conjE disjE) simp_all
qed

theorem new_id_elision_witness:
  "arg_Type (mk_arg ''id'' ''new_id'' ''wl_surface'') = ''new_id''
   \<and> arg_Interface (mk_arg ''id'' ''new_id'' ''wl_surface'') \<noteq> ''''
   \<and> arg_Type (mk_arg ''x'' ''int'' '''') \<in> dom wlTypes
   \<and> arg_Type (mk_arg ''y'' ''uint'' '''') \<in> dom wlTypes
   \<and> requestArgs_step [''wl_surface'' \<mapsto> ''Surface''] [] (mk_arg ''id'' ''new_id'' ''wl_surface'') = []
   \<and> requestArgs_list [''wl_surface'' \<mapsto> ''Surface'']
        (mk_request ''create''
           [mk_arg ''x'' ''int'' '''', mk_arg ''id'' ''new_id'' ''wl_surface'', mk_arg ''y'' ''uint'' ''''])
       = [''x int32'', ''y uint32'']
   \<and> requestRets_list [''wl_surface'' \<mapsto> ''Surface'']
        (mk_request ''create''
           [mk_arg ''x'' ''int'' '''', mk_arg ''id'' ''new_id'' ''wl_surface'', mk_arg ''y'' ''uint'' ''''])
       = [''*Surface'', '' error'']
   \<and> length (requestArgs_list [''wl_surface'' \<mapsto> ''Surface'']
        (mk_request ''create''
           [mk_arg ''x'' ''int'' '''', mk_arg ''id'' ''new_id'' ''wl_surface'', mk_arg ''y'' ''uint'' ''''])) = 2
   \<and> length (requestRets_list [''wl_surface'' \<mapsto> ''Surface'']
        (mk_request ''create''
           [mk_arg ''x'' ''int'' '''', mk_arg ''id'' ''new_id'' ''wl_surface'', mk_arg ''y'' ''uint'' ''''])) = 2
   \<and> requestArgs [''wl_surface'' \<mapsto> ''Surface'']
        (mk_request ''create''
           [mk_arg ''x'' ''int'' '''', mk_arg ''id'' ''new_id'' ''wl_surface'', mk_arg ''y'' ''uint'' ''''])
       = ''x int32,y uint32''
   \<and> requestRets [''wl_surface'' \<mapsto> ''Surface'']
        (mk_request ''create''
           [mk_arg ''x'' ''int'' '''', mk_arg ''id'' ''new_id'' ''wl_surface'', mk_arg ''y'' ''uint'' ''''])
       = ''(*Surface, error)''"
proof -
  let ?names = "[''wl_surface'' \<mapsto> ''Surface'']"
  let ?n = "mk_arg ''id'' ''new_id'' ''wl_surface''"
  let ?p1 = "mk_arg ''x'' ''int'' ''''"
  let ?p2 = "mk_arg ''y'' ''uint'' ''''"
  let ?req = "mk_request ''create'' [?p1, ?n, ?p2]"
  note t = new_id_elision [of ?names ?req]
  have hyp: "arg_Type ?n = ''new_id'' \<and> arg_Interface ?n \<noteq> ''''
      \<and> arg_Type ?p1 \<in> dom wlTypes \<and> arg_Type ?p2 \<in> dom wlTypes
      \<and> (req_Args ?req = [?n, ?p1, ?p2] \<or> req_Args ?req = [?p1, ?n, ?p2] \<or> req_Args ?req = [?p1, ?p2, ?n])"
    by (simp add: mk_arg_def mk_request_def wlTypes_def)
  from t have "\<forall>n p1 p2.
         arg_Type n = ''new_id'' \<and> arg_Interface n \<noteq> ''''
         \<and> arg_Type p1 \<in> dom wlTypes \<and> arg_Type p2 \<in> dom wlTypes
         \<and> (req_Args ?req = [n, p1, p2] \<or> req_Args ?req = [p1, n, p2] \<or> req_Args ?req = [p1, p2, n])
         \<longrightarrow> length (requestArgs_list ?names ?req) = 2 \<and> length (requestRets_list ?names ?req) = 2"
    by (elim conjE)
  then have len: "length (requestArgs_list ?names ?req) = 2 \<and> length (requestRets_list ?names ?req) = 2"
    using hyp by blast
  from t have "\<forall>arg. arg_Type arg = ''new_id'' \<and> arg_Interface arg \<noteq> ''''
         \<longrightarrow> requestArgs_step ?names [] arg = []"
    by (elim conjE)
  then have el: "requestArgs_step ?names [] ?n = []"
    using hyp by blast
  have args: "requestArgs_list ?names ?req = [''x int32'', ''y uint32'']"
    using t by (simp add: requestArgs_step_def mk_arg_def mk_request_def wlTypes_def map_index_def)
  have rets: "requestRets_list ?names ?req = [''*Surface'', '' error'']"
    using t by (simp add: mk_arg_def mk_request_def map_index_def)
  have atext: "requestArgs ?names ?req = ''x int32,y uint32''"
    using t args by simp
  have rtext: "requestRets ?names ?req = ''(*Surface, error)''"
    using t rets by simp
  from hyp len el args rets atext rtext show ?thesis by simp
qed

section \<open>The generator has no failure of its own\<close>

lemma main_total: "\<exists>out. main (Inr protocol) = Inr out"
  by (simp add: main_def Let_def)

section \<open>Interface names that are not registered\<close>

text \<open>
  Claim C4, as stated, fails: for an object argument and a new-id argument whose
  interface \<^verbatim>\<open>wl_missing\<close> is in no registry entry, the run ends normally and the text
  holds the parameter \<^verbatim>\<open>target *\<close> and the field \<^verbatim>\<open>Source *\<close>, a pointer marker with no
  type name behind it.
\<close>

theorem unregistered_interface_counterexample:
  "main (Inr sample_unregistered) =
     Inr ''package wl\<newline>//Interface Request Codes\<newline>\<newline>const (\<newline>_PAD_ATTACH = 0\<newline>)\<newline>type PadMovedEvent struct {\<newline>Source *\<newline>}\<newline>\<newline>type Pad struct {\<newline>BaseProxy\<newline>MovedChan chan PadMovedEvent\<newline>}\<newline>\<newline>func NewPad(conn *Connection) *Pad {\<newline>ret := new(Pad)\<newline>ret.MovedChan = make(chan PadMovedEvent)\<newline>conn.Register(ret)\<newline>return ret\<newline>}\<newline>\<newline>func (p *Pad) Attach(target *) error{\<newline>return  p.Connection().SendRequest(p,_PAD_ATTACH,target)\<newline>}\<newline>''"
  by code_simp

text \<open>
  Claim C4, amended. An object or new-id argument whose non-empty interface name is
  absent from the registry does not stop the generator: the lookup yields the empty
  string, so the parameter, the return type and the event field are the pointer marker
  \<^verbatim>\<open>*\<close> alone and the constructor call is \<^verbatim>\<open>New(p.Connection())\<close>; every run on a
  decoded protocol ends with output.
\<close>

theorem unregistered_interface_yields_empty_name:
  "(\<forall>names arg buf params body hasRet.
      names (arg_Interface arg) = None \<and> arg_Interface arg \<noteq> '''' \<longrightarrow>
        (arg_Type arg = ''object'' \<longrightarrow>
           requestArgs_step names [] arg = [arg_Name arg @ '' *''])
      \<and> (arg_Type arg = ''new_id'' \<longrightarrow>
           requestRets_step names [] arg = [''*'']
           \<and> requestBody_step names (params, body, hasRet) arg =
               (params @ [''Proxy(ret)''], body @ ''ret := New(p.Connection())\<newline>'', ''ret,''))
      \<and> (arg_Type arg = ''object'' \<or> arg_Type arg = ''new_id'' \<longrightarrow>
           event_arg_step names buf arg = buf @ CamelCase (arg_Name arg) @ '' *\<newline>''))
   \<and> (\<forall>protocol. \<exists>out. main (Inr protocol) = Inr out)"
proof (intro conjI allI impI)
  fix names :: "string \<rightharpoonup> string" and arg :: Arg and buf :: string
    and params :: "string list" and body hasRet :: string
  assume h: "names (arg_Interface arg) = None \<and> arg_Interface arg \<noteq> ''''"
  then have e: "map_index names (arg_Interface arg) = ''''"
    by (simp add: map_index_def)
  show "requestArgs_step names [] arg = [arg_Name arg @ '' *'']" if "arg_Type arg = ''object''"
    using that h e by (simp add: requestArgs_step_def)
  show "requestRets_step names [] arg = [''*'']" if "arg_Type arg = ''new_id''"
    using that h e by (simp add: requestRets_step_def)
  show "requestBody_step names (params, body, hasRet) arg =
          (params @ [''Proxy(ret)''], body @ ''ret := New(p.Connection())\<newline>'', ''ret,'')"
    if "arg_Type arg = ''new_id''"
    using that h e by (simp add: requestBody_step_def)
  show "event_arg_step names buf arg = buf @ CamelCase (arg_Name arg) @ '' *\<newline>''"
    if "arg_Type arg = ''object'' \<or> arg_Type arg = ''new_id''"
  proof -
    have "wlTypes (arg_Type arg) = None"
      using that by (auto simp: wlTypes_def)
    then show ?thesis
      using that h e by (simp add: event_arg_step_def)
  qed
next
  fix protocol
  show "\<exists>out. main (Inr protocol) = Inr out" by (rule main_total)
qed

theorem unregistered_interface_yields_empty_name_witness:
  "Map.empty (arg_Interface (mk_arg ''target'' ''object'' ''wl_missing'')) = (None :: string option)
   \<and> arg_Interface (mk_arg ''target'' ''object'' ''wl_missing'') \<noteq> ''''
   \<and> arg_Type (mk_arg ''target'' ''object'' ''wl_missing'') = ''object''
   \<and> requestArgs_step Map.empty [] (mk_arg ''target'' ''object'' ''wl_missing'') = [''target *'']
   \<and> event_arg_step Map.empty '''' (mk_arg ''target'' ''object'' ''wl_missing'') = ''Target *\<newline>''
   \<and> arg_Type (mk_arg ''id'' ''new_id'' ''wl_missing'') = ''new_id''
   \<and> requestRets_step Map.empty [] (mk_arg ''id'' ''new_id'' ''wl_missing'') = [''*'']"
proof -
  let ?a = "mk_arg ''target'' ''object'' ''wl_missing''"
  let ?b = "mk_arg ''id'' ''new_id'' ''wl_missing''"
  have ha: "Map.empty (arg_Interface ?a) = (None :: string option) \<and> arg_Interface ?a \<noteq> ''''"
    by (simp add: mk_arg_def)
  have hb: "Map.empty (arg_Interface ?b) = (None :: string option) \<and> arg_Interface ?b \<noteq> ''''"
    by (simp add: mk_arg_def)
  have ta: "arg_Type ?a = ''object''" and tb: "arg_Type ?b = ''new_id''"
    by (simp_all add: mk_arg_def)
  have na: "arg_Name ?a = ''target''" by (simp add: mk_arg_def)
  have cc: "CamelCase ''target'' = ''Target''" by code_simp
  note t = unregistered_interface_yields_empty_name [THEN conjunct1, rule_format]
  from t [of Map.empty ?a, OF ha] ta
  have 1: "requestArgs_step Map.empty [] ?a = [arg_Name ?a @ '' *'']"
    by simp
  from t [of Map.empty ?a "[]" "[]" "[]" "[]", OF ha] ta
  have 2: "event_arg_step Map.empty '''' ?a = '''' @ CamelCase (arg_Name ?a) @ '' *\<newline>''"
    by simp
  from t [of Map.empty ?b, OF hb] tb
  have 3: "requestRets_step Map.empty [] ?b = [''*'']"
    by simp
  from ha ta tb 1 2 3 na cc show ?thesis by simp
qed

section \<open>The type table and kinds outside it\<close>

text \<open>
  Claim C5, as stated, fails: for an argument of kind \<^verbatim>\<open>float\<close>, which is neither in
  the table nor an interface kind, the run ends normally; the request parameter is
  emitted with no type at all and the event field with the type \<^verbatim>\<open>Proxy\<close>.
\<close>

theorem unknown_kind_counterexample:
  "main (Inr sample_unknown_kind) =
     Inr ''package wl\<newline>//Interface Request Codes\<newline>\<newline>const (\<newline>_PAD_SCALE = 0\<newline>)\<newline>type PadScaledEvent struct {\<newline>Factor Proxy\<newline>}\<newline>\<newline>type Pad struct {\<newline>BaseProxy\<newline>ScaledChan chan PadScaledEvent\<newline>}\<newline>\<newline>func NewPad(conn *Connection) *Pad {\<newline>ret := new(Pad)\<newline>ret.ScaledChan = make(chan PadScaledEvent)\<newline>conn.Register(ret)\<newline>return ret\<newline>}\<newline>\<newline>func (p *Pad) Scale(factor ) error{\<newline>return  p.Connection().SendRequest(p,_PAD_SCALE,factor)\<newline>}\<newline>''"
  by code_simp

text \<open>
  Claim C5, amended. The type table is defined on exactly the six primitive kinds and
  gives each one target type. An argument whose kind is neither in the table nor
  \<^verbatim>\<open>object\<close> nor \<^verbatim>\<open>new_id\<close> does not stop the generator: as a request parameter it gets
  the empty type, as an event field the type \<^verbatim>\<open>Proxy\<close>; every run on a decoded protocol
  ends with output.
\<close>

theorem type_table_and_unknown_kinds:
  "dom wlTypes = {''int'', ''uint'', ''string'', ''fd'', ''fixed'', ''array''}
   \<and> wlTypes ''int'' = Some ''int32'' \<and> wlTypes ''uint'' = Some ''uint32''
   \<and> wlTypes ''string'' = Some ''string'' \<and> wlTypes ''fd'' = Some ''uintptr''
   \<and> wlTypes ''fixed'' = Some ''float32'' \<and> wlTypes ''array'' = Some ''[]int32''
   \<and> (\<forall>names arg buf.
         arg_Type arg \<notin> dom wlTypes \<and> arg_Type arg \<noteq> ''object'' \<and> arg_Type arg \<noteq> ''new_id'' \<longrightarrow>
           requestArgs_step names [] arg = [arg_Name arg @ '' '']
         \<and> event_arg_step names buf arg = buf @ CamelCase (arg_Name arg) @ '' Proxy\<newline>'')
   \<and> (\<forall>protocol. \<exists>out. main (Inr protocol) = Inr out)"
proof (intro conjI allI impI)
  show "dom wlTypes = {''int'', ''uint'', ''string'', ''fd'', ''fixed'', ''array''}"
    by (rule wlTypes_dom)
  show "wlTypes ''int'' = Some ''int32''" "wlTypes ''uint'' = Some ''uint32''"
    "wlTypes ''string'' = Some ''string''" "wlTypes ''fd'' = Some ''uintptr''"
    "wlTypes ''fixed'' = Some ''float32''" "wlTypes ''array'' = Some ''[]int32''"
    by (simp_all add: wlTypes_def)
next
  fix names :: "string \<rightharpoonup> string" and arg :: Arg and buf :: string
  assume h: "arg_Type arg \<notin> dom wlTypes \<and> arg_Type arg \<noteq> ''object'' \<and> arg_Type arg \<noteq> ''new_id''"
  then have n: "wlTypes (arg_Type arg) = None"
    by (simp add: domIff)
  show "requestArgs_step names [] arg = [arg_Name arg @ '' '']"
    using h n by (simp add: requestArgs_step_def map_index_def)
  show "event_arg_step names buf arg = buf @ CamelCase (arg_Name arg) @ '' Proxy\<newline>''"
    using h n by (simp add: event_arg_step_def)
next
  fix protocol
  show "\<exists>out. main (Inr protocol) = Inr out" by (rule main_total)
qed

theorem type_table_and_unknown_kinds_witness:
  "arg_Type (mk_arg ''factor'' ''float'' '''') \<notin> dom wlTypes
   \<and> arg_Type (mk_arg ''factor'' ''float'' '''') \<noteq> ''object''
   \<and> arg_Type (mk_arg ''factor'' ''float'' '''') \<noteq> ''new_id''
   \<and> requestArgs_step Map.empty [] (mk_arg ''factor'' ''float'' '''') = [''factor '']
   \<and> event_arg_step Map.empty '''' (mk_arg ''factor'' ''float'' '''') = ''Factor Proxy\<newline>''"
proof -
  let ?a = "mk_arg ''factor'' ''float'' ''''"
  have h: "arg_Type ?a \<notin> dom wlTypes \<and> arg_Type ?a \<noteq> ''object'' \<and> arg_Type ?a \<noteq> ''new_id''"
    by (simp add: mk_arg_def wlTypes_def)
  have na: "arg_Name ?a = ''factor''" by (simp add: mk_arg_def)
  have cc: "CamelCase ''factor'' = ''Factor''" by code_simp
  note t = type_table_and_unknown_kinds [THEN conjunct2, THEN conjunct2, THEN conjunct2,
      THEN conjunct2, THEN conjunct2, THEN conjunct2, THEN conjunct2, THEN conjunct1, rule_format]
  from t [of ?a Map.empty "[]", OF h]
  have "requestArgs_step Map.empty [] ?a = [arg_Name ?a @ '' '']
        \<and> event_arg_step Map.empty '''' ?a = '''' @ CamelCase (arg_Name ?a) @ '' Proxy\<newline>''"
    by simp
  with h na cc show ?thesis by simp
qed

section \<open>Object arguments without an interface, in a request signature\<close>

text \<open>
  Claim C6 at an object argument with no interface. In an event the field type is
  \<^verbatim>\<open>Proxy\<close>, and in a signature a new-id argument without an interface becomes a
  \<^verbatim>\<open>Proxy\<close> parameter; but an object argument without an interface falls through to
  the type table in \<^verbatim>\<open>requestArgs\<close>, which has no entry for \<^verbatim>\<open>object\<close>, and the
  parameter is emitted with the empty type.
\<close>

theorem object_without_interface_in_signature:
  "requestArgs Map.empty (mk_request ''attach'' [mk_arg ''target'' ''object'' '''']) = ''target ''
   \<and> event_arg_step Map.empty '''' (mk_arg ''target'' ''object'' '''') = ''Target Proxy\<newline>''
   \<and> requestArgs Map.empty (mk_request ''bind'' [mk_arg ''id'' ''new_id'' ''''])
       = ''iface string,version uint32,id Proxy''"
  by code_simp

section \<open>Request bodies\<close>

text \<open>
  Claim C3 at a request with two new-id arguments of known interfaces. The signature
  built by \<^verbatim>\<open>requestRets\<close> declares three results, two pointers and the error, but the
  body built by \<^verbatim>\<open>requestBody\<close> declares the variable \<^verbatim>\<open>ret\<close> twice and its return
  statement hands back one \<^verbatim>\<open>ret\<close> and the error: the first constructed instance is
  not returned.
\<close>

theorem two_new_ids_body:
  "main (Inr sample_two_new_ids) =
     Inr ''package wl\<newline>//Interface Request Codes\<newline>\<newline>const (\<newline>_X_PAIR = 0\<newline>)\<newline>type A struct {\<newline>BaseProxy\<newline>}\<newline>\<newline>func NewA(conn *Connection) *A {\<newline>ret := new(A)\<newline>conn.Register(ret)\<newline>return ret\<newline>}\<newline>\<newline>type B struct {\<newline>BaseProxy\<newline>}\<newline>\<newline>func NewB(conn *Connection) *B {\<newline>ret := new(B)\<newline>conn.Register(ret)\<newline>return ret\<newline>}\<newline>\<newline>type X struct {\<newline>BaseProxy\<newline>}\<newline>\<newline>func NewX(conn *Connection) *X {\<newline>ret := new(X)\<newline>conn.Register(ret)\<newline>return ret\<newline>}\<newline>\<newline>func (p *X) Pair()(*A,*B, error){\<newline>ret := NewA(p.Connection())\<newline>ret := NewB(p.Connection())\<newline>return ret, p.Connection().SendRequest(p,_X_PAIR,Proxy(ret),Proxy(ret))\<newline>}\<newline>''"
  by code_simp

section \<open>How the loops of the generator change the state\<close>

lemma registerAndCase_fst [simp]: "fst (registerAndCase n st) = CamelCase n"
  by (simp add: registerAndCase_def Let_def)

lemma registerAndCase_snd [simp]:
  "snd (registerAndCase n st) = st\<lparr>wlNames := (wlNames st)(n \<mapsto> CamelCase n)\<rparr>"
  by (simp add: registerAndCase_def Let_def)

lemma cased_update: "cased names \<Longrightarrow> cased (names(n \<mapsto> CamelCase n))"
  by (simp add: cased_def)

lemma cased_index:
  "cased names \<Longrightarrow> k \<in> dom names \<Longrightarrow> map_index names k = CamelCase k"
  by (auto simp: cased_def map_index_def)

text \<open>The event loop.\<close>

lemma event_step_eq:
  "event_step ifaceName (st, eventBuffer, eventNames) event =
     (st\<lparr>wlNames := (wlNames st)(event_Name event \<mapsto> CamelCase (event_Name event))\<rparr>,
      foldl (event_arg_step ((wlNames st)(event_Name event \<mapsto> CamelCase (event_Name event))))
        (eventBuffer @ ''\<newline>type '' @ ifaceName @ CamelCase (event_Name event) @ ''Event''
           @ '' struct {\<newline>'')
        (event_Args event) @ ''}\<newline>'',
      eventNames @ [CamelCase (event_Name event)])"
  by (simp add: event_step_def registerAndCase_def Let_def)

lemma event_loop_buffers:
  "constBuffer (fst (foldl (event_step n) acc evs)) = constBuffer (fst acc)
   \<and> ifaceBuffer (fst (foldl (event_step n) acc evs)) = ifaceBuffer (fst acc)
   \<and> reqCodesBuffer (fst (foldl (event_step n) acc evs)) = reqCodesBuffer (fst acc)"
proof (induction evs arbitrary: acc)
  case Nil
  show ?case by simp
next
  case (Cons e evs)
  obtain st b ns where acc: "acc = (st, b, ns)" by (cases acc) auto
  show ?case
    using Cons.IH [of "event_step n acc e"] by (simp add: acc event_step_eq)
qed

lemma event_loop_names:
  "snd (snd (foldl (event_step n) acc evs)) = snd (snd acc) @ map (\<lambda>e. CamelCase (event_Name e)) evs"
proof (induction evs arbitrary: acc)
  case Nil
  show ?case by simp
next
  case (Cons e evs)
  obtain st b ns where acc: "acc = (st, b, ns)" by (cases acc) auto
  show ?case
    using Cons.IH [of "event_step n acc e"] by (simp add: acc event_step_eq)
qed

lemma event_loop_registry:
  assumes "cased (wlNames (fst acc))" and "K \<subseteq> dom (wlNames (fst acc))"
  shows "cased (wlNames (fst (foldl (event_step n) acc evs)))
         \<and> K \<subseteq> dom (wlNames (fst (foldl (event_step n) acc evs)))"
  using assms
proof (induction evs arbitrary: acc)
  case Nil
  then show ?case by simp
next
  case (Cons e evs)
  obtain st b ns where acc: "acc = (st, b, ns)" by (cases acc) auto
  have "cased (wlNames (fst (event_step n acc e)))"
    using Cons.prems(1) by (simp add: acc event_step_eq cased_update)
  moreover have "K \<subseteq> dom (wlNames (fst (event_step n acc e)))"
    using Cons.prems(2) by (auto simp: acc event_step_eq)
  ultimately show ?case
    using Cons.IH [of "event_step n acc e"] by simp
qed

text \<open>The request loop.\<close>

lemma request_step_fields:
  "wlNames (request_step n st oreq) = wlNames st"
  "constBuffer (request_step n st oreq) = constBuffer st"
  "reqCodesBuffer (request_step n st oreq) =
     reqCodesBuffer st @ request_code_line n (fst oreq) (snd oreq)"
  "ifaceBuffer (request_step n st oreq) = ifaceBuffer st @ method_text (wlNames st) n oreq"
  by (cases oreq; simp add: request_step_def request_code_line_def request_code_name_def
      method_text_def Let_def)+

lemma request_loop_fields:
  "wlNames (foldl (request_step n) st xs) = wlNames st
   \<and> constBuffer (foldl (request_step n) st xs) = constBuffer st
   \<and> reqCodesBuffer (foldl (request_step n) st xs) =
       reqCodesBuffer st @ concat (map (\<lambda>oreq. request_code_line n (fst oreq) (snd oreq)) xs)
   \<and> ifaceBuffer (foldl (request_step n) st xs) =
       ifaceBuffer st @ concat (map (method_text (wlNames st) n) xs)"
proof (induction xs arbitrary: st)
  case Nil
  show ?case by simp
next
  case (Cons x xs)
  show ?case
    using Cons.IH [of "request_step n st x"] by (simp add: request_step_fields)
qed

lemma enumerate_nth: "enumerate 0 xs = map (\<lambda>i. (i, xs ! i)) [0..<length xs]"
  by (rule nth_equalityI) (simp_all add: nth_enumerate_eq)

text \<open>The enum loops.\<close>

lemma entry_step_fields:
  "wlNames (entry_step n en ct st entry) = (wlNames st)(entry_Name entry \<mapsto> CamelCase (entry_Name entry))"
  "ifaceBuffer (entry_step n en ct st entry) = ifaceBuffer st"
  "reqCodesBuffer (entry_step n en ct st entry) = reqCodesBuffer st"
  "\<exists>c. constBuffer (entry_step n en ct st entry) = constBuffer st @ c"
  by (simp_all add: entry_step_def registerAndCase_def Let_def)

lemma keeps_refl: "keeps K st st"
  by (simp add: keeps_def)

lemma keeps_trans: "keeps K a b \<Longrightarrow> keeps K b c \<Longrightarrow> keeps K a c"
  by (auto simp: keeps_def)

lemma keeps_foldl:
  assumes "\<And>b x. keeps K b (f b x)"
  shows "keeps K st (foldl f st xs)"
proof (induction xs arbitrary: st)
  case Nil
  show ?case by (simp add: keeps_refl)
next
  case (Cons x xs)
  show ?case
    using keeps_trans [OF assms [of st x] Cons.IH [of "f st x"]] by simp
qed

lemma entry_step_keeps: "keeps K st (entry_step n en ct st entry)"
  using entry_step_fields(4) [of n en ct st entry]
  by (auto simp: keeps_def entry_step_fields cased_update)

lemma enum_step_keeps: "keeps K st (enum_step n st enum)"
proof -
  let ?st3 = "st\<lparr>wlNames := (wlNames st)(enum_Name enum \<mapsto> CamelCase (enum_Name enum)),
                 constBuffer := constBuffer st @ ''\<newline>type '' @ (n @ CamelCase (enum_Name enum))
                    @ '' uint\<newline>'' @ ''const (\<newline>''\<rparr>"
  let ?st4 = "foldl (entry_step n (CamelCase (enum_Name enum)) (n @ CamelCase (enum_Name enum)))
                ?st3 (enum_Entries enum)"
  have e: "enum_step n st enum = ?st4\<lparr>constBuffer := constBuffer ?st4 @ '')\<newline>''\<rparr>"
    by (simp add: enum_step_def registerAndCase_def Let_def)
  have 1: "keeps K st ?st3"
    by (auto simp: keeps_def cased_update)
  have 2: "keeps K ?st3 ?st4"
    by (rule keeps_foldl) (rule entry_step_keeps)
  have 3: "keeps K ?st4 (?st4\<lparr>constBuffer := constBuffer ?st4 @ '')\<newline>''\<rparr>)"
    by (simp add: keeps_def)
  show ?thesis
    unfolding e by (rule keeps_trans [OF keeps_trans [OF 1 2] 3])
qed

lemma enum_loop_keeps: "keeps K st (foldl (enum_step n) st enums)"
  by (rule keeps_foldl) (rule enum_step_keeps)

text \<open>The two loops over the event names.\<close>

lemma chan_field_loop:
  "foldl (chan_field_step n) buf names = buf @ concat (map (channel_field n) names)"
  by (induction names arbitrary: buf) (simp_all add: chan_field_step_def channel_field_def)

lemma chan_make_loop:
  "foldl (chan_make_step n) buf names = buf @ concat (map (channel_init n) names)"
  by (induction names arbitrary: buf) (simp_all add: chan_make_step_def channel_init_def)

lemma event_loop_dom:
  "K \<subseteq> dom (wlNames (fst acc)) \<Longrightarrow> K \<subseteq> dom (wlNames (fst (foldl (event_step n) acc evs)))"
proof (induction evs arbitrary: acc)
  case Nil
  then show ?case by simp
next
  case (Cons e evs)
  obtain st b ns where acc: "acc = (st, b, ns)" by (cases acc) auto
  have "K \<subseteq> dom (wlNames (fst (event_step n acc e)))"
    using Cons.prems by (auto simp: acc event_step_eq)
  then show ?case
    using Cons.IH [of "event_step n acc e"] by simp
qed

text \<open>One round of the loop over the interfaces.\<close>

lemma iface_step_eq:
  assumes E: "foldl (event_step (map_index (wlNames st) (iface_Name iface))) (st, '''', [])
                (iface_Events iface) = (st1, eventBuffer, eventNames)"
  shows "iface_step st iface =
     foldl (enum_step (map_index (wlNames st) (iface_Name iface)))
       (foldl (request_step (map_index (wlNames st) (iface_Name iface)))
          (st1\<lparr>ifaceBuffer := ifaceBuffer st1 @ eventBuffer
                  @ interface_type (map_index (wlNames st) (iface_Name iface)) eventNames
                  @ interface_constructor (map_index (wlNames st) (iface_Name iface)) eventNames\<rparr>)
          (enumerate 0 (iface_Requests iface)))
       (iface_Enums iface)"
  by (simp add: iface_step_def Let_def E chan_field_loop chan_make_loop
      interface_type_def interface_constructor_def)

lemma iface_step_fields:
  fixes st :: gen_state and iface :: Interface
  defines "n \<equiv> map_index (wlNames st) (iface_Name iface)"
  defines "E \<equiv> foldl (event_step n) (st, '''', []) (iface_Events iface)"
  defines "evNames \<equiv> map (\<lambda>e. CamelCase (event_Name e)) (iface_Events iface)"
  shows "reqCodesBuffer (iface_step st iface) =
           reqCodesBuffer st
             @ concat (map (\<lambda>oreq. request_code_line n (fst oreq) (snd oreq))
                         (enumerate 0 (iface_Requests iface)))"
    and "ifaceBuffer (iface_step st iface) =
           ifaceBuffer st @ fst (snd E) @ interface_type n evNames
             @ interface_constructor n evNames
             @ concat (map (method_text (wlNames (fst E)) n) (enumerate 0 (iface_Requests iface)))"
    and "\<exists>c. constBuffer (iface_step st iface) = constBuffer st @ c"
    and "cased (wlNames st) \<Longrightarrow> cased (wlNames (iface_step st iface))"
    and "K \<subseteq> dom (wlNames st) \<Longrightarrow> K \<subseteq> dom (wlNames (iface_step st iface))"
proof -
  obtain st1 eventBuffer eventNames where E3: "E = (st1, eventBuffer, eventNames)"
    by (cases E) auto
  have names: "eventNames = evNames"
    using event_loop_names [of n "(st, '''', [])" "iface_Events iface"]
    by (simp add: E3 [unfolded E_def] evNames_def)
  have bufs: "constBuffer st1 = constBuffer st" "ifaceBuffer st1 = ifaceBuffer st"
    "reqCodesBuffer st1 = reqCodesBuffer st"
    using event_loop_buffers [of n "(st, '''', [])" "iface_Events iface"]
    by (simp_all add: E3 [unfolded E_def])
  have reg: "cased (wlNames st) \<Longrightarrow> cased (wlNames st1)"
    "\<And>K. K \<subseteq> dom (wlNames st) \<Longrightarrow> K \<subseteq> dom (wlNames st1)"
    using event_loop_registry [of "(st, '''', [])" "{}" n "iface_Events iface"]
      event_loop_dom [of _ "(st, '''', [])" n "iface_Events iface"]
    by (simp_all add: E3 [unfolded E_def])
  let ?st12 = "st1\<lparr>ifaceBuffer := ifaceBuffer st1 @ eventBuffer
                  @ interface_type n eventNames @ interface_constructor n eventNames\<rparr>"
  let ?st13 = "foldl (request_step n) ?st12 (enumerate 0 (iface_Requests iface))"
  have eq: "iface_step st iface = foldl (enum_step n) ?st13 (iface_Enums iface)"
    using iface_step_eq [OF E3 [unfolded E_def n_def]] by (simp add: n_def)
  have k: "keeps K ?st13 (iface_step st iface)" for K
    unfolding eq by (rule enum_loop_keeps)
  note r = request_loop_fields [of n ?st12 "enumerate 0 (iface_Requests iface)"]
  show "reqCodesBuffer (iface_step st iface) =
           reqCodesBuffer st
             @ concat (map (\<lambda>oreq. request_code_line n (fst oreq) (snd oreq))
                         (enumerate 0 (iface_Requests iface)))"
    using k [of "{}"] r by (simp add: keeps_def bufs)
  show "ifaceBuffer (iface_step st iface) =
           ifaceBuffer st @ fst (snd E) @ interface_type n evNames
             @ interface_constructor n evNames
             @ concat (map (method_text (wlNames (fst E)) n) (enumerate 0 (iface_Requests iface)))"
    using k [of "{}"] r by (simp add: keeps_def bufs E3 names)
  show "\<exists>c. constBuffer (iface_step st iface) = constBuffer st @ c"
    using k [of "{}"] r by (simp add: keeps_def bufs)
  show "cased (wlNames (iface_step st iface))" if "cased (wlNames st)"
    using k [of "{}"] r reg(1) [OF that] by (simp add: keeps_def)
  show "K \<subseteq> dom (wlNames (iface_step st iface))" if "K \<subseteq> dom (wlNames st)"
    using k [of K] r reg(2) [OF that] by (simp add: keeps_def)
qed

text \<open>The first pass and the loop over the interfaces.\<close>

lemma register_loop:
  "constBuffer (foldl (\<lambda>st iface. snd (registerAndCase (iface_Name iface) st)) st ifs) = constBuffer st
   \<and> ifaceBuffer (foldl (\<lambda>st iface. snd (registerAndCase (iface_Name iface) st)) st ifs) = ifaceBuffer st
   \<and> reqCodesBuffer (foldl (\<lambda>st iface. snd (registerAndCase (iface_Name iface) st)) st ifs) = reqCodesBuffer st
   \<and> (cased (wlNames st) \<longrightarrow>
        cased (wlNames (foldl (\<lambda>st iface. snd (registerAndCase (iface_Name iface) st)) st ifs)))
   \<and> dom (wlNames (foldl (\<lambda>st iface. snd (registerAndCase (iface_Name iface) st)) st ifs))
       = dom (wlNames st) \<union> iface_Name ` set ifs"
proof (induction ifs arbitrary: st)
  case Nil
  show ?case by simp
next
  case (Cons a ifs)
  let ?st = "snd (registerAndCase (iface_Name a) st)"
  have c: "cased (wlNames st) \<Longrightarrow> cased (wlNames ?st)"
    by (simp add: cased_update)
  have d: "dom (wlNames ?st) = insert (iface_Name a) (dom (wlNames st))"
    by simp
  have b: "constBuffer ?st = constBuffer st" "ifaceBuffer ?st = ifaceBuffer st"
    "reqCodesBuffer ?st = reqCodesBuffer st"
    by simp_all
  have f: "foldl (\<lambda>st iface. snd (registerAndCase (iface_Name iface) st)) st (a # ifs)
           = foldl (\<lambda>st iface. snd (registerAndCase (iface_Name iface) st)) ?st ifs"
    by simp
  show ?case
    unfolding f using Cons.IH [of ?st] c d b by (simp del: registerAndCase_snd)
qed

lemma interface_codes_enumerate:
  "concat (map (\<lambda>oreq. request_code_line (CamelCase (iface_Name iface)) (fst oreq) (snd oreq))
             (enumerate 0 (iface_Requests iface)))
   = interface_request_codes iface"
  by (simp add: enumerate_nth interface_request_codes_def comp_def)

lemma iface_loop_codes:
  assumes "cased (wlNames st)" and "iface_Name ` set ifs \<subseteq> dom (wlNames st)"
  shows "reqCodesBuffer (foldl iface_step st ifs) =
           reqCodesBuffer st @ concat (map interface_request_codes ifs)"
  using assms
proof (induction ifs arbitrary: st)
  case Nil
  show ?case by simp
next
  case (Cons a ifs)
  have n: "map_index (wlNames st) (iface_Name a) = CamelCase (iface_Name a)"
    using Cons.prems by (intro cased_index) auto
  have 1: "reqCodesBuffer (iface_step st a) = reqCodesBuffer st @ interface_request_codes a"
    using iface_step_fields(1) [of st a] by (simp add: n interface_codes_enumerate)
  have 2: "cased (wlNames (iface_step st a))"
    using Cons.prems(1) by (rule iface_step_fields(4))
  have 3: "iface_Name ` set ifs \<subseteq> dom (wlNames (iface_step st a))"
    using Cons.prems(2) by (intro iface_step_fields(5)) auto
  show ?case
    using Cons.IH [OF 2 3] by (simp add: 1)
qed


lemma cased_empty: "cased Map.empty"
  by (simp add: cased_def)

lemma generate_reqCodes:
  "reqCodesBuffer (generate protocol) =
     ''\<newline>//Interface Request Codes\<newline>\<newline>const (\<newline>''
       @ concat (map interface_request_codes (proto_Interfaces protocol)) @ '')''"
proof -
  let ?st0 = "init_state\<lparr>constBuffer := constBuffer init_state @ ''package wl''\<rparr>"
  let ?st1 = "foldl (\<lambda>st iface. snd (registerAndCase (iface_Name iface) st)) ?st0
                (proto_Interfaces protocol)"
  let ?st3 = "?st1\<lparr>reqCodesBuffer := reqCodesBuffer ?st1
                 @ ''\<newline>//Interface Request Codes\<newline>'' @ ''\<newline>const (\<newline>''\<rparr>"
  note r = register_loop [of ?st0 "proto_Interfaces protocol"]
  have c: "cased (wlNames ?st3)"
    using r by (simp add: init_state_def cased_empty)
  have d: "iface_Name ` set (proto_Interfaces protocol) \<subseteq> dom (wlNames ?st3)"
    using r by simp
  have b: "reqCodesBuffer ?st3 = ''\<newline>//Interface Request Codes\<newline>\<newline>const (\<newline>''"
    using r by (simp add: init_state_def)
  have "generate protocol =
          (foldl iface_step ?st3 (proto_Interfaces protocol))
            \<lparr>reqCodesBuffer := reqCodesBuffer (foldl iface_step ?st3 (proto_Interfaces protocol)) @ '')''\<rparr>"
    by (simp add: generate_def Let_def)
  then show ?thesis
    using iface_loop_codes [OF c d] b by simp
qed


text \<open>The digits that \<^verbatim>\<open>%d\<close> prints denote the number printed.\<close>

lemma decimal_value_snoc:
  "decimal_value (s @ [c]) = 10 * decimal_value s + (of_char c - 48)"
  by (simp add: decimal_value_def)

lemma decimal_value_digit: "d < 10 \<Longrightarrow> decimal_value [digit_char d] = d"
  by (simp add: decimal_value_def digit_char_def)

lemma decimal_value_itoa: "decimal_value (itoa n) = n"
proof (induction n rule: itoa.induct)
  case (1 n)
  show ?case
  proof (cases "n < 10")
    case True
    then show ?thesis
      by (subst itoa.simps) (simp add: decimal_value_digit)
  next
    case False
    have d: "of_char (digit_char (n mod 10)) - 48 = n mod 10"
      by (simp add: digit_char_def)
    have "decimal_value (itoa n) = 10 * decimal_value (itoa (n div 10)) + n mod 10"
      using False by (subst itoa.simps) (simp add: decimal_value_snoc d)
    also have "\<dots> = 10 * (n div 10) + n mod 10"
      using "1.IH" [OF False] by simp
    finally show ?thesis by simp
  qed
qed

lemma itoa_small:
  "itoa 0 = ''0''" "itoa 1 = ''1''" "itoa 2 = ''2''" "itoa 3 = ''3''"
  by code_simp+

section \<open>Request codes\<close>

text \<open>
  Claim C1. The request-code block of a run is the header, then for every interface in
  document order and every request of it in document order exactly one line, then the
  closing parenthesis. The line of a request names the constant and gives the decimal
  digits of the request's zero-based position, and those digits denote that position.
  For the requests \<open>a, b, c\<close> the codes are 0, 1, 2, and with a request \<open>d\<close> put between
  \<open>b\<close> and \<open>c\<close> they are 0, 1, 2 for \<open>a, b, d\<close> and 3 for \<open>c\<close>.
\<close>

theorem request_codes_are_positions:
  "reqCodesBuffer (generate protocol) =
     ''\<newline>//Interface Request Codes\<newline>\<newline>const (\<newline>''
       @ concat (map interface_request_codes (proto_Interfaces protocol)) @ '')''
   \<and> request_code_line ifaceName order req =
       request_code_name ifaceName req @ '' = '' @ itoa order @ ''\<newline>''
   \<and> decimal_value (itoa order) = order
   \<and> interface_request_codes (iface\<lparr>iface_Requests := [a, b, c]\<rparr>) =
       request_code_name (CamelCase (iface_Name iface)) a @ '' = 0\<newline>''
       @ request_code_name (CamelCase (iface_Name iface)) b @ '' = 1\<newline>''
       @ request_code_name (CamelCase (iface_Name iface)) c @ '' = 2\<newline>''
   \<and> interface_request_codes (iface\<lparr>iface_Requests := [a, b, d, c]\<rparr>) =
       request_code_name (CamelCase (iface_Name iface)) a @ '' = 0\<newline>''
       @ request_code_name (CamelCase (iface_Name iface)) b @ '' = 1\<newline>''
       @ request_code_name (CamelCase (iface_Name iface)) d @ '' = 2\<newline>''
       @ request_code_name (CamelCase (iface_Name iface)) c @ '' = 3\<newline>''"
proof (intro conjI)
  show "reqCodesBuffer (generate protocol) =
     ''\<newline>//Interface Request Codes\<newline>\<newline>const (\<newline>''
       @ concat (map interface_request_codes (proto_Interfaces protocol)) @ '')''"
    by (rule generate_reqCodes)
  show "request_code_line ifaceName order req =
       request_code_name ifaceName req @ '' = '' @ itoa order @ ''\<newline>''"
    by (simp add: request_code_line_def request_code_name_def)
  show "decimal_value (itoa order) = order"
    by (rule decimal_value_itoa)
  have u3: "[0..<3] = [0, 1, 2]" and u4: "[0..<4] = [0, 1, 2, 3]"
    by (simp_all add: upt_rec)
  have s: "itoa (Suc 0) = ''1''" "itoa (Suc (Suc 0)) = ''2''" "itoa (Suc (Suc (Suc 0))) = ''3''"
    using itoa_small by (simp_all add: eval_nat_numeral)
  show "interface_request_codes (iface\<lparr>iface_Requests := [a, b, c]\<rparr>) =
       request_code_name (CamelCase (iface_Name iface)) a @ '' = 0\<newline>''
       @ request_code_name (CamelCase (iface_Name iface)) b @ '' = 1\<newline>''
       @ request_code_name (CamelCase (iface_Name iface)) c @ '' = 2\<newline>''"
    by (simp add: interface_request_codes_def request_code_line_def request_code_name_def
        u3 itoa_small s)
  show "interface_request_codes (iface\<lparr>iface_Requests := [a, b, d, c]\<rparr>) =
       request_code_name (CamelCase (iface_Name iface)) a @ '' = 0\<newline>''
       @ request_code_name (CamelCase (iface_Name iface)) b @ '' = 1\<newline>''
       @ request_code_name (CamelCase (iface_Name iface)) d @ '' = 2\<newline>''
       @ request_code_name (CamelCase (iface_Name iface)) c @ '' = 3\<newline>''"
    by (simp add: interface_request_codes_def request_code_line_def request_code_name_def
        u4 itoa_small s)
qed

section \<open>Event channels\<close>

lemma iface_loop_registry:
  assumes "cased (wlNames st)" and "K \<subseteq> dom (wlNames st)"
  shows "cased (wlNames (foldl iface_step st ifs)) \<and> K \<subseteq> dom (wlNames (foldl iface_step st ifs))"
  using assms
proof (induction ifs arbitrary: st)
  case Nil
  then show ?case by simp
next
  case (Cons a ifs)
  have 1: "cased (wlNames (iface_step st a))"
    using Cons.prems(1) by (rule iface_step_fields(4))
  have 2: "K \<subseteq> dom (wlNames (iface_step st a))"
    using Cons.prems(2) by (rule iface_step_fields(5))
  show ?case
    using Cons.IH [OF 1 2] by simp
qed

lemma iface_loop_buffer:
  "\<exists>x. ifaceBuffer (foldl iface_step st ifs) = ifaceBuffer st @ x"
proof (induction ifs arbitrary: st)
  case Nil
  show ?case by simp
next
  case (Cons a ifs)
  obtain x where x: "ifaceBuffer (foldl iface_step (iface_step st a) ifs)
                       = ifaceBuffer (iface_step st a) @ x"
    using Cons.IH [of "iface_step st a"] by blast
  show ?case
    using iface_step_fields(2) [of st a] by (simp add: x)
qed

lemma generate_interface_text:
  assumes split: "proto_Interfaces protocol = pre @ [iface] @ post"
  shows "\<exists>before after.
           ifaceBuffer (generate protocol) =
             before
               @ interface_type (CamelCase (iface_Name iface))
                   (map (\<lambda>e. CamelCase (event_Name e)) (iface_Events iface))
               @ interface_constructor (CamelCase (iface_Name iface))
                   (map (\<lambda>e. CamelCase (event_Name e)) (iface_Events iface))
               @ after"
proof -
  let ?st0 = "init_state\<lparr>constBuffer := constBuffer init_state @ ''package wl''\<rparr>"
  let ?st1 = "foldl (\<lambda>st iface. snd (registerAndCase (iface_Name iface) st)) ?st0
                (proto_Interfaces protocol)"
  let ?st3 = "?st1\<lparr>reqCodesBuffer := reqCodesBuffer ?st1
                 @ ''\<newline>//Interface Request Codes\<newline>'' @ ''\<newline>const (\<newline>''\<rparr>"
  let ?stk = "foldl iface_step ?st3 pre"
  let ?evs = "map (\<lambda>e. CamelCase (event_Name e)) (iface_Events iface)"
  note r = register_loop [of ?st0 "proto_Interfaces protocol"]
  have c: "cased (wlNames ?st3)"
    using r by (simp add: init_state_def cased_empty)
  have d: "{iface_Name iface} \<subseteq> dom (wlNames ?st3)"
    using r by (simp add: split)
  have k: "cased (wlNames ?stk) \<and> {iface_Name iface} \<subseteq> dom (wlNames ?stk)"
    using c d by (rule iface_loop_registry)
  then have n: "map_index (wlNames ?stk) (iface_Name iface) = CamelCase (iface_Name iface)"
    by (intro cased_index) auto
  have g: "ifaceBuffer (generate protocol)
             = ifaceBuffer (foldl iface_step (iface_step ?stk iface) post)"
    by (simp add: generate_def Let_def split)
  obtain x where x: "ifaceBuffer (foldl iface_step (iface_step ?stk iface) post)
                       = ifaceBuffer (iface_step ?stk iface) @ x"
    using iface_loop_buffer [of "iface_step ?stk iface" post] by blast
  let ?E = "foldl (event_step (CamelCase (iface_Name iface))) (?stk, '''', []) (iface_Events iface)"
  have s: "ifaceBuffer (iface_step ?stk iface) =
             ifaceBuffer ?stk @ fst (snd ?E)
               @ interface_type (CamelCase (iface_Name iface)) ?evs
               @ interface_constructor (CamelCase (iface_Name iface)) ?evs
               @ concat (map (method_text (wlNames (fst ?E)) (CamelCase (iface_Name iface)))
                           (enumerate 0 (iface_Requests iface)))"
    using iface_step_fields(2) [of ?stk iface] unfolding n .
  have "ifaceBuffer (generate protocol) =
          (ifaceBuffer ?stk @ fst (snd ?E))
            @ interface_type (CamelCase (iface_Name iface)) ?evs
            @ interface_constructor (CamelCase (iface_Name iface)) ?evs
            @ (concat (map (method_text (wlNames (fst ?E)) (CamelCase (iface_Name iface)))
                        (enumerate 0 (iface_Requests iface))) @ x)"
    unfolding g x s by simp
  then show ?thesis by blast
qed

text \<open>
  Claim C9. In every round of the loop over the interfaces, whatever the state it
  starts in, the list of event names has one entry per event of the interface, and the
  text added to the interface buffer is the event structs, then the interface type with
  the base handle and exactly one channel field per event name, then the constructor,
  which makes the channel of every one of those fields, registers the instance with the
  connection passed in and returns it, then the request methods. For every interface
  of a protocol, the interface buffer of the run holds that type and, right after it,
  that constructor, both under the generated identifier of the interface.
\<close>

theorem event_channels_complete:
  "(case foldl (event_step (map_index (wlNames st) (iface_Name iface))) (st, '''', [])
           (iface_Events iface) of
      (st1, eventBuffer, eventNames) \<Rightarrow>
        length eventNames = length (iface_Events iface)
        \<and> eventNames = map (\<lambda>e. CamelCase (event_Name e)) (iface_Events iface)
        \<and> ifaceBuffer (iface_step st iface) =
            ifaceBuffer st @ eventBuffer
              @ interface_type (map_index (wlNames st) (iface_Name iface)) eventNames
              @ interface_constructor (map_index (wlNames st) (iface_Name iface)) eventNames
              @ concat (map (method_text (wlNames st1) (map_index (wlNames st) (iface_Name iface)))
                          (enumerate 0 (iface_Requests iface))))
   \<and> interface_type n evNames =
       ''\<newline>type '' @ n @ '' struct {\<newline>BaseProxy\<newline>''
         @ concat (map (\<lambda>ev. ev @ ''Chan chan '' @ n @ ev @ ''Event\<newline>'') evNames) @ ''}\<newline>''
   \<and> interface_constructor n evNames =
       ''\<newline>func New'' @ n @ ''(conn *Connection) *'' @ n @ '' {\<newline>ret := new('' @ n @ '')\<newline>''
         @ concat (map (\<lambda>ev. ''ret.'' @ ev @ ''Chan = make(chan '' @ n @ ev @ ''Event)\<newline>'') evNames)
         @ ''conn.Register(ret)\<newline>return ret\<newline>}\<newline>''
   \<and> (\<forall>pre post.
         proto_Interfaces protocol = pre @ [iface] @ post \<longrightarrow>
         (\<exists>before after.
            ifaceBuffer (generate protocol) =
              before
                @ interface_type (CamelCase (iface_Name iface))
                    (map (\<lambda>e. CamelCase (event_Name e)) (iface_Events iface))
                @ interface_constructor (CamelCase (iface_Name iface))
                    (map (\<lambda>e. CamelCase (event_Name e)) (iface_Events iface))
                @ after))"
proof (intro conjI allI impI)
  fix pre post
  assume "proto_Interfaces protocol = pre @ [iface] @ post"
  then show "\<exists>before after.
            ifaceBuffer (generate protocol) =
              before
                @ interface_type (CamelCase (iface_Name iface))
                    (map (\<lambda>e. CamelCase (event_Name e)) (iface_Events iface))
                @ interface_constructor (CamelCase (iface_Name iface))
                    (map (\<lambda>e. CamelCase (event_Name e)) (iface_Events iface))
                @ after"
    by (rule generate_interface_text)
next
  let ?n = "map_index (wlNames st) (iface_Name iface)"
  let ?E = "foldl (event_step ?n) (st, '''', []) (iface_Events iface)"
  obtain st1 eventBuffer eventNames where E: "?E = (st1, eventBuffer, eventNames)"
    by (cases ?E) auto
  have names: "eventNames = map (\<lambda>e. CamelCase (event_Name e)) (iface_Events iface)"
    using event_loop_names [of ?n "(st, '''', [])" "iface_Events iface"] by (simp add: E)
  have buf: "ifaceBuffer (iface_step st iface) =
            ifaceBuffer st @ eventBuffer @ interface_type ?n eventNames
              @ interface_constructor ?n eventNames
              @ concat (map (method_text (wlNames st1) ?n) (enumerate 0 (iface_Requests iface)))"
    using iface_step_fields(2) [of st iface] by (simp add: E names)
  show "case ?E of
      (st1, eventBuffer, eventNames) \<Rightarrow>
        length eventNames = length (iface_Events iface)
        \<and> eventNames = map (\<lambda>e. CamelCase (event_Name e)) (iface_Events iface)
        \<and> ifaceBuffer (iface_step st iface) =
            ifaceBuffer st @ eventBuffer @ interface_type ?n eventNames
              @ interface_constructor ?n eventNames
              @ concat (map (method_text (wlNames st1) ?n) (enumerate 0 (iface_Requests iface)))"
    unfolding E using names buf by simp
  show "interface_type n evNames =
       ''\<newline>type '' @ n @ '' struct {\<newline>BaseProxy\<newline>''
         @ concat (map (\<lambda>ev. ev @ ''Chan chan '' @ n @ ev @ ''Event\<newline>'') evNames) @ ''}\<newline>''"
    by (simp add: interface_type_def channel_field_def [abs_def])
  show "interface_constructor n evNames =
       ''\<newline>func New'' @ n @ ''(conn *Connection) *'' @ n @ '' {\<newline>ret := new('' @ n @ '')\<newline>''
         @ concat (map (\<lambda>ev. ''ret.'' @ ev @ ''Chan = make(chan '' @ n @ ev @ ''Event)\<newline>'') evNames)
         @ ''conn.Register(ret)\<newline>return ret\<newline>}\<newline>''"
    by (simp add: interface_constructor_def channel_init_def [abs_def])
qed

theorem event_channels_complete_witness:
  "proto_Interfaces sample_foo_bar =
     [] @ [mk_interface ''foo_bar'' [mk_request ''do_thing'' [mk_arg ''count'' ''int'' '''']]
             [mk_event ''happened'' []]] @ []
   \<and> (\<exists>before after.
         ifaceBuffer (generate sample_foo_bar) =
           before
             @ ''\<newline>type FooBar struct {\<newline>BaseProxy\<newline>HappenedChan chan FooBarHappenedEvent\<newline>}\<newline>''
             @ ''\<newline>func NewFooBar(conn *Connection) *FooBar {\<newline>ret := new(FooBar)\<newline>ret.HappenedChan = make(chan FooBarHappenedEvent)\<newline>conn.Register(ret)\<newline>return ret\<newline>}\<newline>''
             @ after)"
proof -
  let ?iface = "mk_interface ''foo_bar'' [mk_request ''do_thing'' [mk_arg ''count'' ''int'' '''']]
                  [mk_event ''happened'' []]"
  have h: "proto_Interfaces sample_foo_bar = [] @ [?iface] @ []"
    by (simp add: sample_foo_bar_def mk_protocol_def)
  have n: "CamelCase (iface_Name ?iface) = ''FooBar''" by code_simp
  have e: "map (\<lambda>e. CamelCase (event_Name e)) (iface_Events ?iface) = [''Happened'']"
    by code_simp
  have t: "interface_type ''FooBar'' [''Happened''] =
             ''\<newline>type FooBar struct {\<newline>BaseProxy\<newline>HappenedChan chan FooBarHappenedEvent\<newline>}\<newline>''"
    by code_simp
  have c: "interface_constructor ''FooBar'' [''Happened''] =
             ''\<newline>func NewFooBar(conn *Connection) *FooBar {\<newline>ret := new(FooBar)\<newline>ret.HappenedChan = make(chan FooBarHappenedEvent)\<newline>conn.Register(ret)\<newline>return ret\<newline>}\<newline>''"
    by code_simp
  note w = event_channels_complete [where iface = ?iface and protocol = sample_foo_bar,
      THEN conjunct2, THEN conjunct2, THEN conjunct2, rule_format, OF h]
  from w h show ?thesis
    unfolding n e t c by blast
qed

section \<open>Determinism\<close>



section \<open>Facts about characters\<close>






lemma space_class [simp]:
  "\<not> is_lower CHR '' ''" "\<not> is_upper CHR '' ''" "\<not> is_digit CHR '' ''" "isSeparator CHR '' ''"
  by (simp_all add: is_lower_def is_upper_def is_digit_def isSeparator_def)

lemma underscore_class [simp]:
  "\<not> is_lower CHR ''_''" "\<not> is_upper CHR ''_''" "\<not> is_digit CHR ''_''" "\<not> isSeparator CHR ''_''"
  by (simp_all add: is_lower_def is_upper_def is_digit_def isSeparator_def)







section \<open>The naming rule, step by step\<close>

lemma ReplaceAll_nil [simp]: "ReplaceAll [] old new = []"
  by (simp add: ReplaceAll_def)

lemma ReplaceAll_cons [simp]:
  "ReplaceAll (c # cs) old new = (if c = old then new else [c]) @ ReplaceAll cs old new"
  by (simp add: ReplaceAll_def)


lemma camel_from_nil [simp]: "camel_from prev [] = []"
  by (simp add: camel_from_def)









section \<open>Idempotence of the naming rule\<close>



section \<open>Distinct names and distinct identifiers\<close>











end
